theory Spec2Isabelle
  imports Main
begin

section \<open>Strings\<close>

text \<open>
  Strings are lists of \<^typ>\<open>char\<close>, a character being a code unit below \<open>0x100\<close>
  (ASCII and the Latin-1 supplement). On these, \<open>String.prototype.toLowerCase\<close> maps
  \<open>A\<close>..\<open>Z\<close> to \<open>a\<close>..\<open>z\<close> and the capital letters \<open>0xC0\<close>..\<open>0xDE\<close> (without the sign
  \<open>0xD7\<close>) to the small letters \<open>0xE0\<close>..\<open>0xFE\<close> (without the sign \<open>0xF7\<close>), and
  leaves every other character alone; \<open>String.prototype.trim\<close> removes the white space
  and the line terminators (TAB, LF, VT, FF, CR, SPACE and the no-break space
  \<open>0xA0\<close>) from both ends.
\<close>

definition upper_letters :: string where
  "upper_letters = ''ABCDEFGHIJKLMNOPQRSTUVWXYZ''"

definition lower_letters :: string where
  "lower_letters = ''abcdefghijklmnopqrstuvwxyz''"

definition digits :: string where
  "digits = ''0123456789''"

definition latin1_upper_letters :: string where
  "latin1_upper_letters =
    [CHR 0xC0, CHR 0xC1, CHR 0xC2, CHR 0xC3, CHR 0xC4, CHR 0xC5, CHR 0xC6, CHR 0xC7,
     CHR 0xC8, CHR 0xC9, CHR 0xCA, CHR 0xCB, CHR 0xCC, CHR 0xCD, CHR 0xCE, CHR 0xCF,
     CHR 0xD0, CHR 0xD1, CHR 0xD2, CHR 0xD3, CHR 0xD4, CHR 0xD5, CHR 0xD6, CHR 0xD8,
     CHR 0xD9, CHR 0xDA, CHR 0xDB, CHR 0xDC, CHR 0xDD, CHR 0xDE]"

definition latin1_lower_letters :: string where
  "latin1_lower_letters =
    [CHR 0xE0, CHR 0xE1, CHR 0xE2, CHR 0xE3, CHR 0xE4, CHR 0xE5, CHR 0xE6, CHR 0xE7,
     CHR 0xE8, CHR 0xE9, CHR 0xEA, CHR 0xEB, CHR 0xEC, CHR 0xED, CHR 0xEE, CHR 0xEF,
     CHR 0xF0, CHR 0xF1, CHR 0xF2, CHR 0xF3, CHR 0xF4, CHR 0xF5, CHR 0xF6, CHR 0xF8,
     CHR 0xF9, CHR 0xFA, CHR 0xFB, CHR 0xFC, CHR 0xFD, CHR 0xFE]"

definition is_upper :: "char \<Rightarrow> bool" where
  "is_upper c = (c \<in> set upper_letters)"

definition is_lower :: "char \<Rightarrow> bool" where
  "is_lower c = (c \<in> set lower_letters)"

definition is_digit :: "char \<Rightarrow> bool" where
  "is_digit c = (c \<in> set digits)"

definition lower_char :: "char \<Rightarrow> char" where
  "lower_char c =
     (case map_of (zip (upper_letters @ latin1_upper_letters)
                       (lower_letters @ latin1_lower_letters)) c of
        Some l \<Rightarrow> l
      | None \<Rightarrow> c)"

definition upper_char :: "char \<Rightarrow> char" where
  "upper_char c =
     (case map_of (zip (lower_letters @ latin1_lower_letters)
                       (upper_letters @ latin1_upper_letters)) c of
        Some u \<Rightarrow> u
      | None \<Rightarrow> c)"

definition toLowerCase :: "string \<Rightarrow> string" where
  "toLowerCase s = map lower_char s"

text \<open>The lower-case form of an ASCII letter, every other character left alone: the
  case folding of SQLite's \<open>LIKE\<close>.\<close>

definition ascii_lower_char :: "char \<Rightarrow> char" where
  "ascii_lower_char c =
     (case map_of (zip upper_letters lower_letters) c of Some l \<Rightarrow> l | None \<Rightarrow> c)"

definition is_space :: "char \<Rightarrow> bool" where
  "is_space c =
     (c \<in> set [CHR 0x09, CHR 0x0A, CHR 0x0B, CHR 0x0C, CHR 0x0D, CHR 0x20, CHR 0xA0])"

definition trim :: "string \<Rightarrow> string" where
  "trim s = rev (dropWhile is_space (rev (dropWhile is_space s)))"

section \<open>The categorization engine\<close>

subsection \<open>The keyword regular expression\<close>

text \<open>
  \<open>categorize\<close> builds, for each keyword, the pattern
  \<^verbatim>\<open>'\\b' + keyword.replace(/[.*+?^${}()|[\]\\]/g, '\\$&') + '\\b'\<close>
  and compiles it with the flags \<open>gi\<close>. The embedding keeps the three steps apart:
  the escaping of the keyword, the reading of the pattern text as a sequence of
  regular-expression atoms, and the matching of that sequence against a string.
\<close>

definition backslash :: char where
  "backslash = CHR 0x5C"

text \<open>The characters of the class \<^verbatim>\<open>[.*+?^${}()|[\]\\]\<close>: the syntax characters of
  the pattern language.\<close>

definition syntax_chars :: "char list" where
  "syntax_chars = [CHR ''.'', CHR ''*'', CHR ''+'', CHR ''?'', CHR ''^'', CHR ''$'',
     CHR ''{'', CHR ''}'', CHR ''('', CHR '')'', CHR ''|'', CHR ''['', CHR '']'', backslash]"

definition is_syntax_char :: "char \<Rightarrow> bool" where
  "is_syntax_char c = (c \<in> set syntax_chars)"

text \<open>\<^verbatim>\<open>keyword.replace(/[.*+?^${}()|[\]\\]/g, '\\$&')\<close>: every syntax character is
  replaced by a backslash followed by itself.\<close>

definition escape_keyword :: "string \<Rightarrow> string" where
  "escape_keyword keyword =
     concat (map (\<lambda>c. if is_syntax_char c then [backslash, c] else [c]) keyword)"

definition pattern_source :: "string \<Rightarrow> string" where
  "pattern_source keyword =
     [backslash, CHR ''b''] @ escape_keyword keyword @ [backslash, CHR ''b'']"

text \<open>
  The atoms a pattern built this way can hold: the assertion \<^verbatim>\<open>\b\<close> and a single
  literal character. \<open>parse_pattern\<close> reads a pattern text of that fragment:
  \<^verbatim>\<open>\b\<close> is the word-boundary assertion, a backslash before a syntax character is
  that character taken literally, a character that is no syntax character stands for
  itself. Any other pattern text (an unescaped syntax character, another escape) is
  outside the fragment and gives \<open>None\<close>.
\<close>

datatype atom = WordBoundary | Lit char

fun parse_pattern :: "string \<Rightarrow> atom list option" where
  "parse_pattern [] = Some []"
| "parse_pattern [c] = (if is_syntax_char c then None else Some [Lit c])"
| "parse_pattern (c # d # ds) =
     (if c = backslash then
        (if d = CHR ''b'' then map_option (Cons WordBoundary) (parse_pattern ds)
         else if is_syntax_char d then map_option (Cons (Lit d)) (parse_pattern ds)
         else None)
      else if is_syntax_char c then None
      else map_option (Cons (Lit c)) (parse_pattern (d # ds)))"

text \<open>
  Matching. \<open>is_word_char\<close> is the class \<^verbatim>\<open>[A-Za-z0-9_]\<close> that \<^verbatim>\<open>\b\<close> looks at.
  The matcher walks the input left to right; it carries the character just before
  the current position (\<open>None\<close> at the start of the input), which \<^verbatim>\<open>\b\<close> needs.
  Under the flag \<open>i\<close> two characters match when their canonical forms are equal:
  the canonical form of a character is its upper-case form. The two small letters
  whose upper-case form is no code unit below \<open>0x100\<close> (\<open>0xB5\<close> and \<open>0xFF\<close>) and
  \<open>0xDF\<close>, whose upper-case form is two letters, are canonical themselves; no other
  character below \<open>0x100\<close> has the canonical form of one of them.
\<close>

definition is_word_char :: "char \<Rightarrow> bool" where
  "is_word_char c = (is_lower c \<or> is_upper c \<or> is_digit c \<or> c = CHR ''_'')"

definition is_word :: "char option \<Rightarrow> bool" where
  "is_word x = (case x of None \<Rightarrow> False | Some c \<Rightarrow> is_word_char c)"

definition next_char :: "string \<Rightarrow> char option" where
  "next_char s = (case s of [] \<Rightarrow> None | c # _ \<Rightarrow> Some c)"

definition canonicalize :: "char \<Rightarrow> char" where
  "canonicalize c = upper_char c"

fun match_atoms :: "atom list \<Rightarrow> char option \<Rightarrow> string \<Rightarrow> (char option \<times> string) option" where
  "match_atoms [] prev s = Some (prev, s)"
| "match_atoms (WordBoundary # ts) prev s =
     (if is_word prev \<noteq> is_word (next_char s) then match_atoms ts prev s else None)"
| "match_atoms (Lit c # ts) prev [] = None"
| "match_atoms (Lit c # ts) prev (d # ds) =
     (if canonicalize c = canonicalize d then match_atoms ts (Some d) ds else None)"

text \<open>
  \<^verbatim>\<open>str.match(regex)\<close> with the flag \<open>g\<close> collects the matches from left to right:
  the search for the next match starts where the last one ended, or one character
  further when the match was empty; a position where the pattern does not match is
  skipped. \<open>match_all\<close> returns how many matches are collected.
\<close>

function match_all :: "atom list \<Rightarrow> char option \<Rightarrow> string \<Rightarrow> nat" where
  "match_all r prev s =
     (case match_atoms r prev s of
        Some (prev', s') \<Rightarrow>
          (if length s' < length s then Suc (match_all r prev' s')
           else (case s of [] \<Rightarrow> 1 | c # cs \<Rightarrow> Suc (match_all r (Some c) cs)))
      | None \<Rightarrow> (case s of [] \<Rightarrow> 0 | c # cs \<Rightarrow> match_all r (Some c) cs))"
  by pat_completeness auto
termination
  by (relation "measure (\<lambda>(r, prev, s). length s)") auto

declare match_all.simps [simp del]

subsection \<open>The keyword taxonomy\<close>

text \<open>The constant \<open>CATEGORIES\<close> of the server, an object whose entries are visited in
  the order they are written: a list of pairs of a category and its keywords.\<close>

definition Educational_keywords :: "string list" where
  "Educational_keywords =
    [''study'', ''exam'', ''course'', ''lecture'', ''homework'', ''university'',
     ''college'', ''school'', ''research'', ''learn'', ''learning'', ''student'',
     ''teacher'', ''professor'', ''assignment'', ''thesis'', ''dissertation'',
     ''tutorial'', ''education'', ''class'', ''semester'', ''grade'', ''textbook'',
     ''curriculum'', ''syllabus'', ''academic'', ''scholarship'', ''diploma'',
     ''degree'', ''knowledge'', ''training'', ''workshop'', ''quiz'', ''test'',
     ''chapter'', ''notes'', ''reading'', ''essay'', ''paper'']"

definition Business_keywords :: "string list" where
  "Business_keywords =
    [''meeting'', ''client'', ''revenue'', ''project'', ''deadline'', ''strategy'',
     ''invoice'', ''budget'', ''stakeholder'', ''presentation'', ''proposal'',
     ''contract'', ''negotiation'', ''partnership'', ''marketing'', ''sales'',
     ''profit'', ''loss'', ''startup'', ''entrepreneur'', ''customer'', ''vendor'',
     ''supplier'', ''logistics'', ''operations'', ''management'', ''leadership'',
     ''team'', ''corporate'', ''office'', ''quarterly'', ''kpi'', ''roi'', ''target'',
     ''pipeline'', ''deal'', ''agenda'', ''milestone'', ''deliverable'', ''report'',
     ''analytics'', ''forecast'']"

definition Personal_keywords :: "string list" where
  "Personal_keywords =
    [''family'', ''birthday'', ''vacation'', ''hobby'', ''diary'', ''goal'', ''friend'',
     ''relationship'', ''wedding'', ''anniversary'', ''party'', ''weekend'', ''home'',
     ''garden'', ''cooking'', ''recipe'', ''pet'', ''dog'', ''cat'', ''kids'',
     ''children'', ''parent'', ''mom'', ''dad'', ''shopping'', ''gift'', ''memory'',
     ''dream'', ''wish'', ''journal'', ''gratitude'', ''love'', ''emotion'',
     ''feeling'', ''personal'', ''self-care'', ''mindfulness'', ''meditation'',
     ''reflection'']"

definition Technology_keywords :: "string list" where
  "Technology_keywords =
    [''code'', ''programming'', ''software'', ''api'', ''server'', ''database'',
     ''bug'', ''deploy'', ''frontend'', ''backend'', ''algorithm'', ''javascript'',
     ''python'', ''react'', ''node'', ''html'', ''css'', ''git'', ''github'',
     ''docker'', ''cloud'', ''aws'', ''azure'', ''linux'', ''windows'', ''app'',
     ''application'', ''framework'', ''library'', ''component'', ''function'',
     ''variable'', ''debug'', ''compile'', ''ai'', ''machine learning'',
     ''data science'', ''cybersecurity'', ''devops'', ''microservice'',
     ''architecture'', ''terminal'', ''command'', ''script'', ''automation'',
     ''testing'', ''ci/cd'', ''agile'', ''scrum'', ''tech'', ''computer'']"

definition Finance_keywords :: "string list" where
  "Finance_keywords =
    [''investment'', ''savings'', ''bank'', ''tax'', ''salary'', ''expense'', ''loan'',
     ''stock'', ''mutual fund'', ''portfolio'', ''dividend'', ''interest'',
     ''mortgage'', ''insurance'', ''retirement'', ''pension'', ''credit'', ''debit'',
     ''payment'', ''transaction'', ''accounting'', ''audit'', ''balance'', ''income'',
     ''wealth'', ''crypto'', ''bitcoin'', ''trading'', ''forex'', ''bond'', ''equity'',
     ''asset'', ''liability'', ''inflation'', ''emi'', ''finance'', ''financial'',
     ''money'']"

definition Health_keywords :: "string list" where
  "Health_keywords =
    [''exercise'', ''diet'', ''workout'', ''doctor'', ''medicine'', ''sleep'',
     ''nutrition'', ''gym'', ''yoga'', ''running'', ''fitness'', ''weight'',
     ''calories'', ''protein'', ''vitamin'', ''supplement'', ''hospital'', ''clinic'',
     ''therapy'', ''mental health'', ''anxiety'', ''depression'', ''wellness'',
     ''hydration'', ''water'', ''walk'', ''stretching'', ''cardio'', ''strength'',
     ''recovery'', ''injury'', ''prescription'', ''checkup'', ''blood pressure'',
     ''heart'', ''health'', ''healthy'', ''disease'']"

definition Travel_keywords :: "string list" where
  "Travel_keywords =
    [''flight'', ''hotel'', ''trip'', ''destination'', ''passport'', ''itinerary'',
     ''booking'', ''tour'', ''airport'', ''luggage'', ''sightseeing'', ''beach'',
     ''mountain'', ''camping'', ''hiking'', ''road trip'', ''cruise'', ''resort'',
     ''backpacking'', ''visa'', ''ticket'', ''train'', ''bus'', ''adventure'',
     ''explore'', ''travel'', ''journey'', ''abroad'', ''international'', ''domestic'',
     ''tourism'', ''landmark'', ''museum'', ''culture'', ''restaurant'', ''street food'']"

definition CATEGORIES :: "(string \<times> string list) list" where
  "CATEGORIES =
    [(''Educational'', Educational_keywords), (''Business'', Business_keywords),
     (''Personal'', Personal_keywords), (''Technology'', Technology_keywords),
     (''Finance'', Finance_keywords), (''Health'', Health_keywords),
     (''Travel'', Travel_keywords)]"

subsection \<open>Scoring\<close>

text \<open>
  \<open>count_matches keyword str\<close> is \<^verbatim>\<open>(str.match(regex) || []).length\<close> for the
  regular expression built from \<open>keyword\<close>. The pattern text of every keyword lies in
  the fragment \<open>parse_pattern\<close> reads (lemma \<open>parse_pattern_source\<close> below), so the
  branch \<open>None\<close> is never taken.
\<close>

definition count_matches :: "string \<Rightarrow> string \<Rightarrow> nat" where
  "count_matches keyword str =
     (case parse_pattern (pattern_source keyword) of
        Some regex \<Rightarrow> match_all regex None str
      | None \<Rightarrow> 0)"

text \<open>The inner loop: the score of one category, from the lower-cased title and
  content.\<close>

definition category_score :: "string \<Rightarrow> string \<Rightarrow> string list \<Rightarrow> nat" where
  "category_score titleLower contentLower keywords =
     fold (\<lambda>keyword score.
             let titleMatches = count_matches keyword titleLower;
                 contentMatches = count_matches keyword contentLower
             in score + (titleMatches * 2 + contentMatches))
          keywords 0"

text \<open>The outer loop: one step takes the pair \<open>(bestCategory, bestScore)\<close> through one
  entry of the taxonomy.\<close>

definition categorize_step ::
  "string \<Rightarrow> string \<Rightarrow> string \<times> string list \<Rightarrow> string \<times> nat \<Rightarrow> string \<times> nat" where
  "categorize_step titleLower contentLower entry best =
     (let score = category_score titleLower contentLower (snd entry)
      in if score > snd best then (fst entry, score) else best)"

definition categorize_in :: "(string \<times> string list) list \<Rightarrow> string \<Rightarrow> string \<Rightarrow> string" where
  "categorize_in taxonomy title content =
     (let titleLower = toLowerCase title;
          contentLower = toLowerCase content
      in fst (fold (categorize_step titleLower contentLower) taxonomy (''General'', 0)))"

definition categorize :: "string \<Rightarrow> string \<Rightarrow> string" where
  "categorize title content = categorize_in CATEGORIES title content"

section \<open>The note store\<close>

subsection \<open>The table\<close>

text \<open>
  A row of the table \<open>notes\<close>. The column \<open>id\<close> is the field \<open>note_id\<close> (the name
  \<open>id\<close> is taken); the time stamps are the integers \<open>Date.now()\<close> returns. The
  table is the list of its rows in the order they were inserted, which is the order a
  scan visits them.
\<close>

record Note =
  note_id :: string
  title :: string
  content :: string
  category :: string
  createdAt :: int
  updatedAt :: int

type_synonym notes_table = "Note list"

text \<open>\<open>queryOne\<close>: the first row of a result, or \<open>null\<close>.\<close>

definition queryOne :: "Note list \<Rightarrow> Note option" where
  "queryOne rows = (case rows of [] \<Rightarrow> None | r # _ \<Rightarrow> Some r)"

text \<open>\<^verbatim>\<open>SELECT * FROM notes WHERE id = ?\<close>\<close>

definition select_by_id :: "notes_table \<Rightarrow> string \<Rightarrow> Note list" where
  "select_by_id db i = filter (\<lambda>n. note_id n = i) db"

text \<open>\<^verbatim>\<open>INSERT INTO notes (...) VALUES (...)\<close>: \<open>id\<close> is the primary key, so the
  statement fails (\<open>None\<close>; \<open>db.run\<close> throws) when a row with that id exists;
  otherwise the row is appended.\<close>

definition sql_insert :: "notes_table \<Rightarrow> Note \<Rightarrow> notes_table option" where
  "sql_insert db n =
     (if select_by_id db (note_id n) \<noteq> [] then None else Some (db @ [n]))"

text \<open>\<^verbatim>\<open>UPDATE notes SET title = ?, content = ?, category = ?, updatedAt = ? WHERE id = ?\<close>\<close>

definition sql_update ::
  "notes_table \<Rightarrow> string \<Rightarrow> string \<Rightarrow> string \<Rightarrow> int \<Rightarrow> string \<Rightarrow> notes_table" where
  "sql_update db t c cat now i =
     map (\<lambda>n. if note_id n = i
              then n\<lparr>title := t, content := c, category := cat, updatedAt := now\<rparr>
              else n) db"

text \<open>\<^verbatim>\<open>DELETE FROM notes WHERE id = ?\<close>\<close>

definition sql_delete :: "notes_table \<Rightarrow> string \<Rightarrow> notes_table" where
  "sql_delete db i = filter (\<lambda>n. note_id n \<noteq> i) db"

text \<open>\<^verbatim>\<open>ORDER BY createdAt DESC\<close>: the rows sorted by decreasing \<open>createdAt\<close>. SQL
  leaves the order of rows with equal keys open; the sort of the embedding keeps them
  in scan order.\<close>

definition order_by_createdAt_desc :: "Note list \<Rightarrow> Note list" where
  "order_by_createdAt_desc rows = sort_key (\<lambda>n. - createdAt n) rows"

text \<open>
  The operator \<open>LIKE\<close> of SQLite, pattern first: \<open>%\<close> stands for any sequence of
  characters, \<open>_\<close> for any one character, and any other character for itself, upper
  and lower case of an ASCII letter being the same.
\<close>

fun like_match :: "string \<Rightarrow> string \<Rightarrow> bool" where
  "like_match [] [] = True"
| "like_match [] (c # cs) = False"
| "like_match (p # ps) [] = (p = CHR ''%'' \<and> like_match ps [])"
| "like_match (p # ps) (c # cs) =
     (if p = CHR ''%'' then like_match ps (c # cs) \<or> like_match (p # ps) cs
      else (p = CHR ''_'' \<or> ascii_lower_char p = ascii_lower_char c) \<and> like_match ps cs)"

subsection \<open>The requests\<close>

text \<open>
  A handler takes the table and the request and returns the response with the table
  after the request. The fields \<open>title\<close>, \<open>content\<close> and \<open>category\<close> of a request
  body are strings or absent (\<open>None\<close>). The results of \<open>crypto.randomUUID()\<close> and
  \<open>Date.now()\<close> are arguments of the handler that calls them. Writing the database
  file (\<open>saveDb\<close>) is taken to succeed.
\<close>

datatype error = BadRequest string | NotFound | ServerError

text \<open>\<^verbatim>\<open>GET /api/notes\<close>\<close>

definition listAll :: "notes_table \<Rightarrow> Note list" where
  "listAll db = order_by_createdAt_desc db"

text \<open>\<^verbatim>\<open>GET /api/notes/search?q=keyword\<close>\<close>

definition search :: "notes_table \<Rightarrow> string option \<Rightarrow> Note list" where
  "search db q =
     (let keyword = (case q of None \<Rightarrow> [] | Some k \<Rightarrow> k);
          pattern = ''%'' @ keyword @ ''%''
      in order_by_createdAt_desc
           (filter (\<lambda>n. like_match pattern (title n) \<or> like_match pattern (content n)) db))"

text \<open>The category of a written note, as both \<open>POST\<close> and \<open>PUT\<close> compute it: the
  category of the request, unless it is absent, empty or \<open>Auto\<close>.\<close>

definition resolve_category :: "string option \<Rightarrow> string \<Rightarrow> string \<Rightarrow> string" where
  "resolve_category manualCategory trimmedTitle trimmedContent =
     (case manualCategory of
        None \<Rightarrow> categorize trimmedTitle trimmedContent
      | Some chosen \<Rightarrow>
          if chosen = [] \<or> chosen = ''Auto''
          then categorize trimmedTitle trimmedContent
          else chosen)"

text \<open>\<^verbatim>\<open>POST /api/notes\<close>\<close>

definition create_note ::
  "notes_table \<Rightarrow> string option \<Rightarrow> string option \<Rightarrow> string option \<Rightarrow> string \<Rightarrow> int
     \<Rightarrow> (error + Note) \<times> notes_table" where
  "create_note db title_arg content_arg manualCategory uuid now =
     (case title_arg of
        None \<Rightarrow> (Inl (BadRequest ''Title is required''), db)
      | Some t \<Rightarrow>
          if t = [] \<or> trim t = [] then (Inl (BadRequest ''Title is required''), db)
          else
            (case content_arg of
               None \<Rightarrow> (Inl (BadRequest ''Content is required''), db)
             | Some c \<Rightarrow>
                 if c = [] \<or> trim c = [] then (Inl (BadRequest ''Content is required''), db)
                 else
                   let trimmedTitle = trim t;
                       trimmedContent = trim c;
                       cat = resolve_category manualCategory trimmedTitle trimmedContent;
                       n = \<lparr>note_id = uuid, title = trimmedTitle, content = trimmedContent,
                            category = cat, createdAt = now, updatedAt = now\<rparr>
                   in (case sql_insert db n of
                         None \<Rightarrow> (Inl ServerError, db)
                       | Some db' \<Rightarrow> (Inr n, db'))))"

text \<open>\<^verbatim>\<open>PUT /api/notes/:id\<close>\<close>

definition update_note ::
  "notes_table \<Rightarrow> string \<Rightarrow> string option \<Rightarrow> string option \<Rightarrow> string option \<Rightarrow> int
     \<Rightarrow> (error + Note) \<times> notes_table" where
  "update_note db i title_arg content_arg manualCategory now =
     (case queryOne (select_by_id db i) of
        None \<Rightarrow> (Inl NotFound, db)
      | Some existing \<Rightarrow>
          (case title_arg of
             None \<Rightarrow> (Inl (BadRequest ''Title is required''), db)
           | Some t \<Rightarrow>
               if t = [] \<or> trim t = [] then (Inl (BadRequest ''Title is required''), db)
               else
                 (case content_arg of
                    None \<Rightarrow> (Inl (BadRequest ''Content is required''), db)
                  | Some c \<Rightarrow>
                      if c = [] \<or> trim c = []
                      then (Inl (BadRequest ''Content is required''), db)
                      else
                        let trimmedTitle = trim t;
                            trimmedContent = trim c;
                            cat = resolve_category manualCategory trimmedTitle trimmedContent
                        in (Inr (existing\<lparr>title := trimmedTitle, content := trimmedContent,
                                   category := cat, updatedAt := now\<rparr>),
                            sql_update db trimmedTitle trimmedContent cat now i))))"

text \<open>\<^verbatim>\<open>DELETE /api/notes/:id\<close>\<close>

definition delete_note :: "notes_table \<Rightarrow> string \<Rightarrow> (error + unit) \<times> notes_table" where
  "delete_note db i =
     (case queryOne (select_by_id db i) of
        None \<Rightarrow> (Inl NotFound, db)
      | Some existing \<Rightarrow> (Inr (), sql_delete db i))"

text \<open>The requests that write, and the table after a sequence of them.\<close>

datatype request =
    Create "string option" "string option" "string option" string int
  | Update string "string option" "string option" "string option" int
  | Delete string

fun handle :: "notes_table \<Rightarrow> request \<Rightarrow> notes_table" where
  "handle db (Create t c cat uuid now) = snd (create_note db t c cat uuid now)"
| "handle db (Update i t c cat now) = snd (update_note db i t c cat now)"
| "handle db (Delete i) = snd (delete_note db i)"

definition handle_all :: "notes_table \<Rightarrow> request list \<Rightarrow> notes_table" where
  "handle_all db rs = fold (\<lambda>r d. handle d r) rs db"

section \<open>Notions the properties are stated with\<close>

subsection \<open>For the categorization engine\<close>

text \<open>The five low bits of the code of an ASCII letter: a number from 1 to 26. The five
  low bits of the code of a Latin-1 letter: any number but 23 and 31.\<close>

definition letter_bits :: "bool \<Rightarrow> bool \<Rightarrow> bool \<Rightarrow> bool \<Rightarrow> bool \<Rightarrow> bool" where
  "letter_bits b0 b1 b2 b3 b4 =
     ((b0 \<or> b1 \<or> b2 \<or> b3 \<or> b4) \<and> \<not> (b4 \<and> b3 \<and> (b2 \<or> (b1 \<and> b0))))"

definition latin1_bits :: "bool \<Rightarrow> bool \<Rightarrow> bool \<Rightarrow> bool \<Rightarrow> bool \<Rightarrow> bool" where
  "latin1_bits b0 b1 b2 b3 b4 = (\<not> (b0 \<and> b1 \<and> b2 \<and> b4))"

text \<open>
  The matches of a keyword. \<open>keyword_regex k\<close> is the pattern of the keyword \<open>k\<close> once
  read: its characters as literals between two word boundaries. \<open>before prev u\<close> is
  the character just before the position reached after the characters \<open>u\<close>.
  \<open>bounded_match k prev s\<close>: the pattern of \<open>k\<close> matches at the start of \<open>s\<close>, with
  \<open>prev\<close> the character before it. \<open>whole_word_occurrence k s\<close>: \<open>k\<close> occurs in
  \<open>s\<close>, case ignored, with no word character next to it on either side.
\<close>

definition keyword_regex :: "string \<Rightarrow> atom list" where
  "keyword_regex k = WordBoundary # map Lit k @ [WordBoundary]"

definition before :: "char option \<Rightarrow> string \<Rightarrow> char option" where
  "before prev u = (if u = [] then prev else Some (last u))"

definition bounded_match :: "string \<Rightarrow> char option \<Rightarrow> string \<Rightarrow> bool" where
  "bounded_match k prev s =
     (length k \<le> length s \<and>
      map canonicalize (take (length k) s) = map canonicalize k \<and>
      is_word prev \<noteq> is_word (next_char s) \<and>
      is_word (before prev (take (length k) s)) \<noteq> is_word (next_char (drop (length k) s)))"





text \<open>
  The candidates of \<open>categorize\<close> in the order the loop meets them: the initial
  \<open>General\<close> with the score 0, then each category of the taxonomy with its score.
  \<open>first_maximum cands i\<close>: the candidate at index \<open>i\<close> has the highest score, and
  every candidate before it has a strictly lower one.
\<close>

definition score_of :: "string \<Rightarrow> string \<Rightarrow> string \<times> string list \<Rightarrow> string \<times> nat" where
  "score_of titleLower contentLower entry =
     (fst entry, category_score titleLower contentLower (snd entry))"

definition candidates :: "(string \<times> string list) list \<Rightarrow> string \<Rightarrow> string \<Rightarrow> (string \<times> nat) list" where
  "candidates taxonomy t c =
     (''General'', 0) # map (score_of (toLowerCase t) (toLowerCase c)) taxonomy"

definition first_maximum :: "(string \<times> nat) list \<Rightarrow> nat \<Rightarrow> bool" where
  "first_maximum cands i =
     (i < length cands \<and> list_all (\<lambda>p. snd p \<le> snd (cands ! i)) cands \<and>
      list_all (\<lambda>p. snd p < snd (cands ! i)) (take i cands))"

text \<open>The eight category labels of the application (the keys of \<open>CATEGORY_STYLES\<close> in
  the client): the seven categories of the taxonomy and \<open>General\<close>.\<close>

definition known_categories :: "string list" where
  "known_categories = [''Educational'', ''Business'', ''Personal'', ''Technology'',
     ''Finance'', ''Health'', ''Travel'', ''General'']"

subsection \<open>For the note store\<close>

text \<open>The ids of the notes a table or a result holds, and the requests that insert a
  note under a given id.\<close>

definition ids :: "notes_table \<Rightarrow> string set" where
  "ids db = note_id ` set db"

fun creates :: "string \<Rightarrow> request \<Rightarrow> bool" where
  "creates i (Create t c cat uuid now) = (uuid = i)"
| "creates i (Update j t c cat now) = False"
| "creates i (Delete j) = False"



text \<open>\<open>stamped i ts db\<close>: every row of \<open>db\<close> with the id \<open>i\<close> has the creation time
  \<open>ts\<close>.\<close>

definition stamped :: "string \<Rightarrow> int \<Rightarrow> notes_table \<Rightarrow> bool" where
  "stamped i ts db = list_all (\<lambda>m. note_id m = i \<longrightarrow> createdAt m = ts) db"

text \<open>
  \<open>all_known db\<close>: every note of the table has one of the eight labels.
  \<open>choice_allowed\<close>: the category of a request is absent, empty, \<open>Auto\<close> or one of the
  eight labels; \<open>well_chosen\<close> says so of a request.
\<close>

definition all_known :: "notes_table \<Rightarrow> bool" where
  "all_known db = list_all (\<lambda>n. category n \<in> set known_categories) db"

definition choice_allowed :: "string option \<Rightarrow> bool" where
  "choice_allowed manualCategory =
     (case manualCategory of
        None \<Rightarrow> True
      | Some chosen \<Rightarrow> chosen = [] \<or> chosen = ''Auto'' \<or> chosen \<in> set known_categories)"

fun well_chosen :: "request \<Rightarrow> bool" where
  "well_chosen (Create t c cat uuid now) = choice_allowed cat"
| "well_chosen (Update i t c cat now) = choice_allowed cat"
| "well_chosen (Delete i) = True"

text \<open>
  The search as the specification words it: \<open>contains_ci k s\<close> says that \<open>k\<close> occurs
  in \<open>s\<close> as a plain substring, the case of ASCII letters ignored, and \<open>search_spec\<close>
  returns the notes whose title or content contains the keyword, by decreasing
  \<open>createdAt\<close>. The wild cards of \<open>LIKE\<close> are \<open>%\<close> and \<open>_\<close>.
\<close>

fun starts_with_ci :: "string \<Rightarrow> string \<Rightarrow> bool" where
  "starts_with_ci [] s = True"
| "starts_with_ci (k # ks) [] = False"
| "starts_with_ci (k # ks) (c # cs) = (ascii_lower_char k = ascii_lower_char c \<and> starts_with_ci ks cs)"

fun contains_ci :: "string \<Rightarrow> string \<Rightarrow> bool" where
  "contains_ci k [] = starts_with_ci k []"
| "contains_ci k (c # cs) = (starts_with_ci k (c # cs) \<or> contains_ci k cs)"

definition is_wildcard :: "char \<Rightarrow> bool" where
  "is_wildcard c = (c = CHR ''%'' \<or> c = CHR ''_'')"

definition search_spec :: "notes_table \<Rightarrow> string \<Rightarrow> Note list" where
  "search_spec db keyword =
     order_by_createdAt_desc
       (filter (\<lambda>n. contains_ci keyword (title n) \<or> contains_ci keyword (content n)) db)"

subsection \<open>Notes for the examples\<close>

text \<open>A stored note; a second note as created and as updated later; a note whose title
  and content hold the wild cards themselves.\<close>

definition n0 :: Note where
  "n0 = \<lparr>note_id = ''n1'', title = ''abc'', content = ''xyz'', category = ''General'',
         createdAt = 5, updatedAt = 5\<rparr>"

definition n2 :: Note where
  "n2 = \<lparr>note_id = ''n2'', title = ''Plan'', content = ''pack bags'', category = ''Personal'',
         createdAt = 10, updatedAt = 10\<rparr>"

definition n2' :: Note where
  "n2' = \<lparr>note_id = ''n2'', title = ''Plan B'', content = ''stay'', category = ''Travel'',
         createdAt = 10, updatedAt = 20\<rparr>"

definition n3 :: Note where
  "n3 = \<lparr>note_id = ''n3'', title = ''a_c'', content = ''50%'', category = ''General'',
         createdAt = 7, updatedAt = 7\<rparr>"

section \<open>Properties of the categorization engine\<close>

subsection \<open>Characters\<close>

text \<open>The character classes and the case mappings on the bits of a character; these
  equations are the ones used to evaluate them.\<close>

lemma is_upper_bits [code]:
  "is_upper (Char b0 b1 b2 b3 b4 b5 b6 b7) = (\<not> b7 \<and> b6 \<and> \<not> b5 \<and> letter_bits b0 b1 b2 b3 b4)"
  by (cases b0; cases b1; cases b2; cases b3; cases b4; cases b5; cases b6; cases b7;
      simp add: is_upper_def upper_letters_def letter_bits_def)

lemma is_lower_bits [code]:
  "is_lower (Char b0 b1 b2 b3 b4 b5 b6 b7) = (\<not> b7 \<and> b6 \<and> b5 \<and> letter_bits b0 b1 b2 b3 b4)"
  by (cases b0; cases b1; cases b2; cases b3; cases b4; cases b5; cases b6; cases b7;
      simp add: is_lower_def lower_letters_def letter_bits_def)

lemma is_digit_bits [code]:
  "is_digit (Char b0 b1 b2 b3 b4 b5 b6 b7) =
     (\<not> b7 \<and> \<not> b6 \<and> b5 \<and> b4 \<and> (\<not> b3 \<or> (\<not> b2 \<and> \<not> b1)))"
  by (cases b0; cases b1; cases b2; cases b3; cases b4; cases b5; cases b6; cases b7;
      simp add: is_digit_def digits_def)

lemma upper_char_bits [code]:
  "upper_char (Char b0 b1 b2 b3 b4 b5 b6 b7) =
     (if is_lower (Char b0 b1 b2 b3 b4 b5 b6 b7) \<or>
         (b7 \<and> b6 \<and> b5 \<and> latin1_bits b0 b1 b2 b3 b4)
      then Char b0 b1 b2 b3 b4 False b6 b7
      else Char b0 b1 b2 b3 b4 b5 b6 b7)"
  by (cases b0; cases b1; cases b2; cases b3; cases b4; cases b5; cases b6; cases b7;
      simp add: upper_char_def is_lower_def lower_letters_def upper_letters_def
        latin1_lower_letters_def latin1_upper_letters_def latin1_bits_def)

lemma lower_char_bits [code]:
  "lower_char (Char b0 b1 b2 b3 b4 b5 b6 b7) =
     (if is_upper (Char b0 b1 b2 b3 b4 b5 b6 b7) \<or>
         (b7 \<and> b6 \<and> \<not> b5 \<and> latin1_bits b0 b1 b2 b3 b4)
      then Char b0 b1 b2 b3 b4 True b6 b7
      else Char b0 b1 b2 b3 b4 b5 b6 b7)"
  by (cases b0; cases b1; cases b2; cases b3; cases b4; cases b5; cases b6; cases b7;
      simp add: lower_char_def is_upper_def lower_letters_def upper_letters_def
        latin1_lower_letters_def latin1_upper_letters_def latin1_bits_def)

lemma ascii_lower_char_bits [code]:
  "ascii_lower_char (Char b0 b1 b2 b3 b4 b5 b6 b7) =
     (if is_upper (Char b0 b1 b2 b3 b4 b5 b6 b7) then Char b0 b1 b2 b3 b4 True b6 b7
      else Char b0 b1 b2 b3 b4 b5 b6 b7)"
  by (cases b0; cases b1; cases b2; cases b3; cases b4; cases b5; cases b6; cases b7;
      simp add: ascii_lower_char_def is_upper_def lower_letters_def upper_letters_def)

lemma is_word_char_upper [simp]: "is_word_char (upper_char c) = is_word_char c"
  by (cases c) (auto simp: is_word_char_def upper_char_bits is_upper_bits is_lower_bits
      is_digit_bits letter_bits_def latin1_bits_def)

lemma upper_lower_char [simp]: "upper_char (lower_char c) = upper_char c"
  by (cases c) (auto simp: lower_char_bits upper_char_bits is_upper_bits is_lower_bits
      letter_bits_def latin1_bits_def)

text \<open>The case mappings on some letters and signs of the Latin-1 supplement.\<close>

lemma latin1_case_examples:
  "toLowerCase [CHR 0xC9, CHR 0xD7, CHR 0xDF, CHR ''Q''] = [CHR 0xE9, CHR 0xD7, CHR 0xDF, CHR ''q''] \<and>
   canonicalize (CHR 0xE9) = CHR 0xC9 \<and> canonicalize (CHR 0xF7) = CHR 0xF7 \<and>
   canonicalize (CHR 0xFF) = CHR 0xFF \<and> canonicalize (CHR 0xB5) = CHR 0xB5 \<and>
   ascii_lower_char (CHR 0xC9) = CHR 0xC9 \<and> ascii_lower_char (CHR ''Q'') = CHR ''q''"
  by code_simp

subsection \<open>The pattern of a keyword\<close>

text \<open>Read as a pattern, the escaped keyword between the two \<^verbatim>\<open>\b\<close> is the sequence
  of its own characters, each one a literal.\<close>

lemma not_syntax_b: "\<not> is_syntax_char (CHR ''b'')"
  by (simp add: is_syntax_char_def syntax_chars_def backslash_def)

lemma syntax_backslash: "is_syntax_char backslash"
  by (simp add: is_syntax_char_def syntax_chars_def)

lemma parse_plain:
  "\<not> is_syntax_char c \<Longrightarrow> parse_pattern (c # rest) = map_option (Cons (Lit c)) (parse_pattern rest)"
  using syntax_backslash by (cases rest) auto

lemma parse_escaped:
  "is_syntax_char c \<Longrightarrow>
   parse_pattern (backslash # c # rest) = map_option (Cons (Lit c)) (parse_pattern rest)"
  using not_syntax_b by auto

lemma parse_boundary:
  "parse_pattern (backslash # CHR ''b'' # rest) = map_option (Cons WordBoundary) (parse_pattern rest)"
  by simp

lemma parse_escape_keyword:
  "parse_pattern (escape_keyword k @ rest) = map_option ((@) (map Lit k)) (parse_pattern rest)"
proof (induction k)
  case Nil
  show ?case by (simp add: escape_keyword_def option.map_ident)
next
  case (Cons c k)
  have step: "escape_keyword (c # k) = (if is_syntax_char c then [backslash, c] else [c]) @ escape_keyword k"
    by (simp add: escape_keyword_def)
  show ?case
  proof (cases "is_syntax_char c")
    case True
    then show ?thesis
      using Cons.IH by (simp add: step parse_escaped option.map_comp comp_def del: parse_pattern.simps)
  next
    case False
    then show ?thesis
      using Cons.IH by (simp add: step parse_plain option.map_comp comp_def del: parse_pattern.simps)
  qed
qed

lemma parse_pattern_source:
  "parse_pattern (pattern_source k) = Some (WordBoundary # map Lit k @ [WordBoundary])"
proof -
  have "parse_pattern [backslash, CHR ''b''] = Some [WordBoundary]"
    by simp
  then have "parse_pattern (escape_keyword k @ [backslash, CHR ''b'']) = Some (map Lit k @ [WordBoundary])"
    by (simp only: parse_escape_keyword option.map)
  then show ?thesis
    by (simp only: pattern_source_def append_Cons append_Nil parse_boundary option.map)
qed

lemma count_matches_literal [code]:
  "count_matches k s = match_all (WordBoundary # map Lit k @ [WordBoundary]) None s"
  by (simp add: count_matches_def parse_pattern_source)

subsection \<open>Matches of a keyword\<close>

lemma match_literals:
  "match_atoms (map Lit k @ ts) prev s =
     (if length k \<le> length s \<and> map canonicalize (take (length k) s) = map canonicalize k
      then match_atoms ts (before prev (take (length k) s)) (drop (length k) s)
      else None)"
proof (induction k arbitrary: prev s)
  case Nil
  show ?case by (simp add: before_def)
next
  case (Cons a k)
  show ?case
  proof (cases s)
    case Nil
    then show ?thesis by simp
  next
    case (Cons d ds)
    have b: "before (Some d) (take (length k) ds) = before prev (d # take (length k) ds)"
      by (simp add: before_def)
    show ?thesis
      unfolding Cons
      by (simp add: Cons.IH b)
  qed
qed


lemma match_keyword:
  "match_atoms (WordBoundary # map Lit k @ [WordBoundary]) prev s =
     (if bounded_match k prev s
      then Some (before prev (take (length k) s), drop (length k) s)
      else None)"
  by (simp add: match_literals bounded_match_def)





lemma is_word_char_canonicalize:
  "canonicalize a = canonicalize b \<Longrightarrow> is_word_char a = is_word_char b"
  by (metis canonicalize_def is_word_char_upper)






lemma match_all_keyword:
  "match_all (keyword_regex k) prev s =
     (if bounded_match k prev s
      then (if k \<noteq> []
            then Suc (match_all (keyword_regex k) (before prev (take (length k) s))
                        (drop (length k) s))
            else (case s of [] \<Rightarrow> 1 | c # cs \<Rightarrow> Suc (match_all (keyword_regex k) (Some c) cs)))
      else (case s of [] \<Rightarrow> 0 | c # cs \<Rightarrow> match_all (keyword_regex k) (Some c) cs))"
proof (cases "bounded_match k prev s")
  case False
  then show ?thesis
    unfolding keyword_regex_def
    by (subst match_all.simps) (simp only: match_keyword if_False option.case)
next
  case True
  then have len: "length k \<le> length s" by (simp add: bounded_match_def)
  have shorter: "length (drop (length k) s) < length s \<longleftrightarrow> k \<noteq> []"
    using len by (cases k) auto
  from True show ?thesis
    unfolding keyword_regex_def
    by (subst match_all.simps)
       (simp only: match_keyword if_True option.case prod.case shorter)
qed









lemma not_word_space: "\<not> is_word_char (CHR '' '')"
  by (simp add: is_word_char_def is_lower_bits is_upper_bits is_digit_bits)

lemma match_all_repeat:
  assumes k: "k \<noteq> []" "is_word_char (hd k)" "is_word_char (last k)"
  shows "\<not> is_word prev \<Longrightarrow>
         match_all (keyword_regex k) prev (concat (replicate n (k @ '' ''))) = n"
proof (induction n arbitrary: prev)
  case 0
  from k(1) have "\<not> bounded_match k prev []" by (simp add: bounded_match_def)
  then show ?case by (simp add: match_all_keyword)
next
  case (Suc n)
  define rest where "rest = concat (replicate n (k @ '' ''))"
  have s: "concat (replicate (Suc n) (k @ '' '')) = k @ CHR '' '' # rest"
    by (simp add: rest_def)
  from k have nk: "is_word (next_char (k @ CHR '' '' # rest))"
    by (cases k) (simp_all add: next_char_def is_word_def)
  from k have bk: "is_word (before prev k)" by (simp add: before_def is_word_def)
  have here: "bounded_match k prev (k @ CHR '' '' # rest)"
    using Suc.prems nk bk not_word_space
    by (simp add: bounded_match_def next_char_def is_word_def)
  have "canonicalize (CHR '' '') \<noteq> canonicalize (hd k)"
    using is_word_char_canonicalize [of "CHR '' ''" "hd k"] k(2) not_word_space by auto
  then have "map canonicalize (take (length k) (CHR '' '' # rest)) \<noteq> map canonicalize k"
    using k(1) by (cases k) auto
  then have there: "\<not> bounded_match k (Some (last k)) (CHR '' '' # rest)"
    by (simp add: bounded_match_def)
  have "\<not> is_word (Some (CHR '' ''))" using not_word_space by (simp add: is_word_def)
  then have ih: "match_all (keyword_regex k) (Some (CHR '' '')) rest = n"
    unfolding rest_def by (rule Suc.IH)
  have "match_all (keyword_regex k) prev (k @ CHR '' '' # rest) =
          Suc (match_all (keyword_regex k) (before prev k) (CHR '' '' # rest))"
    using here k(1) by (subst match_all_keyword) simp
  also have "before prev k = Some (last k)" using k(1) by (simp add: before_def)
  also have "match_all (keyword_regex k) (Some (last k)) (CHR '' '' # rest) =
          match_all (keyword_regex k) (Some (CHR '' '')) rest"
    using there by (subst match_all_keyword) simp
  finally have "match_all (keyword_regex k) prev (k @ CHR '' '' # rest) = Suc n"
    by (simp add: ih)
  then show ?case by (simp only: s)
qed











subsection \<open>Scores\<close>

lemma fold_add:
  "fold (\<lambda>k (score::nat). score + g k) kws a = a + sum_list (map g kws)"
  by (induction kws arbitrary: a) simp_all

lemma category_score_sum:
  "category_score tlo clo kws =
     (\<Sum>k\<leftarrow>kws. 2 * count_matches k tlo + count_matches k clo)"
  by (simp add: category_score_def Let_def fold_add mult.commute)

lemma category_score_snoc:
  "category_score tlo clo (kws @ [k]) =
     category_score tlo clo kws + (2 * count_matches k tlo + count_matches k clo)"
  by (simp add: category_score_sum)

lemma category_score_zero:
  assumes "\<forall>k \<in> set kws. count_matches k tlo = 0 \<and> count_matches k clo = 0"
  shows "category_score tlo clo kws = 0"
  using assms by (simp add: category_score_sum)

text \<open>
  Claim C1. The score of a category is the sum, over its keywords, of twice the number
  of matches in the lower-cased title plus the number of matches in the lower-cased
  content, and this is the score \<open>categorize\<close> compares; each keyword adds its share
  to the running score. A keyword matching once in the title and never in the content
  adds 2, one matching once in the content only adds 1. Matches are not capped: a
  keyword repeated \<open>n\<close> times has \<open>n\<close> matches.
\<close>

theorem keyword_contribution:
  "category_score tlo clo kws = (\<Sum>k\<leftarrow>kws. 2 * count_matches k tlo + count_matches k clo) \<and>
   category_score tlo clo (kws @ [k]) =
     category_score tlo clo kws + (2 * count_matches k tlo + count_matches k clo) \<and>
   (count_matches k tlo = 1 \<and> count_matches k clo = 0 \<longrightarrow>
      category_score tlo clo (kws @ [k]) = category_score tlo clo kws + 2) \<and>
   (count_matches k tlo = 0 \<and> count_matches k clo = 1 \<longrightarrow>
      category_score tlo clo (kws @ [k]) = category_score tlo clo kws + 1) \<and>
   (k \<noteq> [] \<and> is_word_char (hd k) \<and> is_word_char (last k) \<longrightarrow>
      count_matches k (concat (replicate n (k @ '' ''))) = n) \<and>
   candidates CATEGORIES t c =
     (''General'', 0) #
     map (\<lambda>e. (fst e, \<Sum>k\<leftarrow>snd e. 2 * count_matches k (toLowerCase t) +
                                   count_matches k (toLowerCase c))) CATEGORIES"
proof (intro conjI impI)
  show "category_score tlo clo kws = (\<Sum>k\<leftarrow>kws. 2 * count_matches k tlo + count_matches k clo)"
    by (rule category_score_sum)
  show "category_score tlo clo (kws @ [k]) =
     category_score tlo clo kws + (2 * count_matches k tlo + count_matches k clo)"
    by (rule category_score_snoc)
  show "category_score tlo clo (kws @ [k]) = category_score tlo clo kws + 2"
    if "count_matches k tlo = 1 \<and> count_matches k clo = 0"
    using that by (simp add: category_score_snoc)
  show "category_score tlo clo (kws @ [k]) = category_score tlo clo kws + 1"
    if "count_matches k tlo = 0 \<and> count_matches k clo = 1"
    using that by (simp add: category_score_snoc)
  show "count_matches k (concat (replicate n (k @ '' ''))) = n"
    if "k \<noteq> [] \<and> is_word_char (hd k) \<and> is_word_char (last k)"
  proof -
    have "\<not> is_word None" by (simp add: is_word_def)
    with that have "match_all (keyword_regex k) None (concat (replicate n (k @ '' ''))) = n"
      by (simp add: match_all_repeat)
    then show ?thesis by (simp add: count_matches_literal keyword_regex_def)
  qed
  show "candidates CATEGORIES t c =
     (''General'', 0) #
     map (\<lambda>e. (fst e, \<Sum>k\<leftarrow>snd e. 2 * count_matches k (toLowerCase t) +
                                   count_matches k (toLowerCase c))) CATEGORIES"
    by (simp add: candidates_def score_of_def category_score_sum)
qed

theorem keyword_contribution_witness:
  "category_score ''budget trip'' ''the hotel'' [''hotel''] = 1 \<and>
   category_score ''budget trip'' ''the hotel'' ([''hotel''] @ [''trip'']) = 1 + 2 \<and>
   category_score ''budget'' ''a trip'' ([''hotel''] @ [''trip'']) = 0 + 1 \<and>
   count_matches ''trip'' ''trip trip trip '' = 3 \<and>
   category_score ''trip trip trip '' ''no'' ([] @ [''trip'']) = 0 + (2 * 3 + 0)"
proof -
  have a: "count_matches ''trip'' ''budget trip'' = 1 \<and> count_matches ''trip'' ''the hotel'' = 0"
    by code_simp
  have b: "count_matches ''trip'' ''budget'' = 0 \<and> count_matches ''trip'' ''a trip'' = 1"
    by code_simp
  have h: "category_score ''budget trip'' ''the hotel'' [''hotel''] = 1"
    by code_simp
  have h0: "category_score ''budget'' ''a trip'' [''hotel''] = 0"
    by code_simp
  have e: "category_score ''trip trip trip '' ''no'' [] = 0" "count_matches ''trip'' ''no'' = 0"
    by code_simp+
  have w: "''trip'' \<noteq> [] \<and> is_word_char (hd ''trip'') \<and> is_word_char (last ''trip'')"
    by code_simp
  have r: "concat (replicate 3 (''trip'' @ '' '')) = ''trip trip trip ''"
    by code_simp
  from keyword_contribution [of "''budget trip''" "''the hotel''" "[''hotel'']" "''trip''"] a h
  have 1: "category_score ''budget trip'' ''the hotel'' ([''hotel''] @ [''trip'']) = 1 + 2"
    by simp
  from keyword_contribution [of "''budget''" "''a trip''" "[''hotel'']" "''trip''"] b h0
  have 2: "category_score ''budget'' ''a trip'' ([''hotel''] @ [''trip'']) = 0 + 1"
    by simp
  from keyword_contribution [of "''trip trip trip ''" "''no''" "[]" "''trip''" 3] w r
  have 3: "count_matches ''trip'' ''trip trip trip '' = 3"
    by simp
  from keyword_contribution [of "''trip trip trip ''" "''no''" "[]" "''trip''"] 3 e
  have 4: "category_score ''trip trip trip '' ''no'' ([] @ [''trip'']) = 0 + (2 * 3 + 0)"
    by simp
  from h 1 2 3 4 show ?thesis by blast
qed





subsection \<open>Selection of the category\<close>

lemma categorize_step_score:
  "categorize_step tlo clo e best =
     (if snd best < snd (score_of tlo clo e) then score_of tlo clo e else best)"
  by (simp add: categorize_step_def score_of_def Let_def)

lemma first_maximum_snoc_new:
  assumes "first_maximum cs i" and "snd (cs ! i) < snd x"
  shows "first_maximum (cs @ [x]) (length cs)"
proof -
  from assms have "list_all (\<lambda>p. snd p < snd x) cs"
    by (auto simp: first_maximum_def list_all_iff)
  then show ?thesis
    by (auto simp: first_maximum_def list_all_iff)
qed

lemma first_maximum_snoc_old:
  assumes "first_maximum cs i" and "\<not> snd (cs ! i) < snd x"
  shows "first_maximum (cs @ [x]) i"
  using assms by (auto simp: first_maximum_def nth_append)

lemma first_maximum_unique:
  assumes "first_maximum cs i" and "first_maximum cs j"
  shows "i = j"
proof (rule ccontr)
  assume "i \<noteq> j"
  then consider "i < j" | "j < i" by fastforce
  then show False
  proof cases
    case 1
    with assms(2) have "cs ! i \<in> set (take j cs)"
      by (auto simp: first_maximum_def in_set_conv_nth intro!: exI [of _ i])
    with assms(2) have "snd (cs ! i) < snd (cs ! j)"
      by (auto simp: first_maximum_def list_all_iff)
    moreover from assms have "snd (cs ! j) \<le> snd (cs ! i)"
      by (auto simp: first_maximum_def list_all_iff)
    ultimately show False by simp
  next
    case 2
    with assms(1) have "cs ! j \<in> set (take i cs)"
      by (auto simp: first_maximum_def in_set_conv_nth intro!: exI [of _ j])
    with assms(1) have "snd (cs ! j) < snd (cs ! i)"
      by (auto simp: first_maximum_def list_all_iff)
    moreover from assms have "snd (cs ! i) \<le> snd (cs ! j)"
      by (auto simp: first_maximum_def list_all_iff)
    ultimately show False by simp
  qed
qed

lemma fold_first_maximum:
  "\<exists>i. first_maximum (best # map (score_of tlo clo) taxonomy) i \<and>
       fold (categorize_step tlo clo) taxonomy best = (best # map (score_of tlo clo) taxonomy) ! i"
proof (induction taxonomy rule: rev_induct)
  case Nil
  show ?case by (simp add: first_maximum_def)
next
  case (snoc e es)
  define cands where "cands = best # map (score_of tlo clo) es"
  define new where "new = score_of tlo clo e"
  from snoc obtain i where
    fm: "first_maximum cands i" and res: "fold (categorize_step tlo clo) es best = cands ! i"
    unfolding cands_def by blast
  have cands': "best # map (score_of tlo clo) (es @ [e]) = cands @ [new]"
    by (simp add: cands_def new_def)
  have step: "fold (categorize_step tlo clo) (es @ [e]) best =
                (if snd (cands ! i) < snd new then new else cands ! i)"
    by (simp add: res categorize_step_score new_def)
  from fm have i: "i < length cands" by (simp add: first_maximum_def)
  show ?case
  proof (cases "snd (cands ! i) < snd new")
    case True
    with fm have "first_maximum (cands @ [new]) (length cands)"
      by (rule first_maximum_snoc_new)
    moreover have "fold (categorize_step tlo clo) (es @ [e]) best = (cands @ [new]) ! length cands"
      using step True by simp
    ultimately show ?thesis unfolding cands' by blast
  next
    case False
    with fm have "first_maximum (cands @ [new]) i"
      by (rule first_maximum_snoc_old)
    moreover have "fold (categorize_step tlo clo) (es @ [e]) best = (cands @ [new]) ! i"
      using step False i by (simp add: nth_append)
    ultimately show ?thesis unfolding cands' by blast
  qed
qed

lemma categorize_in_first_maximum:
  "\<exists>i. first_maximum (candidates taxonomy t c) i \<and>
       categorize_in taxonomy t c = fst (candidates taxonomy t c ! i)"
  using fold_first_maximum [of "(''General'', 0)" "toLowerCase t" "toLowerCase c" taxonomy]
  by (auto simp: categorize_in_def candidates_def Let_def)


lemma categorize_first_maximum:
  assumes "first_maximum (candidates CATEGORIES t c) i"
  shows "categorize t c = fst (candidates CATEGORIES t c ! i)"
proof -
  from categorize_in_first_maximum [of CATEGORIES t c] obtain j where
    j: "first_maximum (candidates CATEGORIES t c) j" and
    r: "categorize_in CATEGORIES t c = fst (candidates CATEGORIES t c ! j)"
    by blast
  from assms j have "i = j" by (rule first_maximum_unique)
  with r show ?thesis by (simp add: categorize_def)
qed

lemma categorize_known: "categorize t c \<in> set known_categories"
proof -
  from categorize_in_first_maximum [of CATEGORIES t c] obtain j where
    j: "j < length (candidates CATEGORIES t c)" and
    r: "categorize t c = fst (candidates CATEGORIES t c ! j)"
    by (auto simp: first_maximum_def categorize_def)
  then have "categorize t c \<in> fst ` set (candidates CATEGORIES t c)"
    by simp
  also have "fst ` set (candidates CATEGORIES t c) = insert ''General'' (fst ` set CATEGORIES)"
    by (simp add: candidates_def score_of_def image_image)
  also have "\<dots> \<subseteq> set known_categories"
    by (simp add: CATEGORIES_def known_categories_def)
  finally show ?thesis .
qed

lemma categorize_no_match:
  assumes "\<forall>e \<in> set CATEGORIES. \<forall>k \<in> set (snd e).
             count_matches k (toLowerCase t) = 0 \<and> count_matches k (toLowerCase c) = 0"
  shows "categorize t c = ''General''"
proof -
  have "list_all (\<lambda>p. snd p \<le> 0) (candidates CATEGORIES t c)"
    using assms by (auto simp: candidates_def score_of_def list_all_iff category_score_zero)
  then have "first_maximum (candidates CATEGORIES t c) 0"
    by (simp add: first_maximum_def candidates_def)
  then have "categorize t c = fst (candidates CATEGORIES t c ! 0)"
    by (rule categorize_first_maximum)
  then show ?thesis by (simp add: candidates_def)
qed

text \<open>
  Claim C3. \<open>categorize\<close> returns the candidate with the highest score, and among
  candidates of equal highest score the one the loop meets first: some candidate is
  the first maximum, and the result is the name of whichever candidate is. A category
  met later with a score equal to the best so far does not replace it; the initial
  \<open>General\<close> (score 0) is the first candidate.
\<close>

theorem categorize_highest_first_wins:
  "(\<exists>i. first_maximum (candidates CATEGORIES t c) i) \<and>
   (\<forall>i. first_maximum (candidates CATEGORIES t c) i \<longrightarrow>
        categorize t c = fst (candidates CATEGORIES t c ! i))"
proof (intro conjI allI impI)
  from categorize_in_first_maximum [of CATEGORIES t c]
  show "\<exists>i. first_maximum (candidates CATEGORIES t c) i" by blast
next
  fix i assume "first_maximum (candidates CATEGORIES t c) i"
  then show "categorize t c = fst (candidates CATEGORIES t c ! i)"
    by (rule categorize_first_maximum)
qed

theorem categorize_highest_first_wins_witness:
  "category_score ''study'' ''meeting meeting'' Educational_keywords = 2 \<and>
   category_score ''study'' ''meeting meeting'' Business_keywords = 2 \<and>
   categorize ''Study'' ''Meeting meeting'' = ''Educational''"
proof -
  have cands: "candidates CATEGORIES ''Study'' ''Meeting meeting'' =
      [(''General'', 0), (''Educational'', 2), (''Business'', 2), (''Personal'', 0),
       (''Technology'', 0), (''Finance'', 0), (''Health'', 0), (''Travel'', 0)]"
    by code_simp
  have e: "category_score ''study'' ''meeting meeting'' Educational_keywords = 2"
    by code_simp
  have b: "category_score ''study'' ''meeting meeting'' Business_keywords = 2"
    by code_simp
  have "first_maximum (candidates CATEGORIES ''Study'' ''Meeting meeting'') 1"
    unfolding cands by (simp add: first_maximum_def)
  with categorize_highest_first_wins [of "''Study''" "''Meeting meeting''"]
  have "categorize ''Study'' ''Meeting meeting'' =
          fst (candidates CATEGORIES ''Study'' ''Meeting meeting'' ! 1)"
    by blast
  with e b show ?thesis by (simp add: cands)
qed

text \<open>
  Claim C4. When no keyword of any category has a match in the lower-cased title or in
  the lower-cased content, so that every category scores zero, \<open>categorize\<close> returns
  \<open>General\<close>.
\<close>

theorem categorize_fallback_general:
  assumes "\<forall>e \<in> set CATEGORIES. \<forall>k \<in> set (snd e).
             count_matches k (toLowerCase t) = 0 \<and> count_matches k (toLowerCase c) = 0"
  shows "(\<forall>e \<in> set CATEGORIES. category_score (toLowerCase t) (toLowerCase c) (snd e) = 0) \<and>
         categorize t c = ''General''"
  using assms by (simp add: categorize_no_match category_score_zero)

theorem categorize_fallback_general_witness:
  "categorize ''Random thoughts'' ''Just writing down whatever comes to mind'' = ''General''"
proof -
  have "\<forall>e \<in> set CATEGORIES. \<forall>k \<in> set (snd e).
          count_matches k (toLowerCase ''Random thoughts'') = 0 \<and>
          count_matches k (toLowerCase ''Just writing down whatever comes to mind'') = 0"
    by code_simp
  from categorize_fallback_general [OF this] show ?thesis by simp
qed

text \<open>Two notes with keyword matches, categorized.\<close>

lemma categorize_examples:
  "categorize ''Quarterly budget meeting with client''
     ''Discuss revenue targets and project deadline'' = ''Business'' \<and>
   categorize ''Trip to the mountains''
     ''Booking flights and hotel for the hiking adventure'' = ''Travel''"
  by code_simp

section \<open>Properties of the note store\<close>

subsection \<open>Ids through the statements and the handlers\<close>

lemma select_by_id_empty: "select_by_id db i = [] \<longleftrightarrow> i \<notin> ids db"
  by (auto simp: select_by_id_def ids_def filter_empty_conv)

lemma queryOne_select_Some:
  "queryOne (select_by_id db i) = Some e \<Longrightarrow> note_id e = i \<and> e \<in> set db"
proof -
  assume a: "queryOne (select_by_id db i) = Some e"
  then obtain rest where "select_by_id db i = e # rest"
    by (auto simp: queryOne_def split: list.splits)
  then have "e \<in> set (filter (\<lambda>n. note_id n = i) db)"
    by (simp add: select_by_id_def)
  then show ?thesis by simp
qed

lemma update_note_absent:
  "i \<notin> ids db \<Longrightarrow> update_note db i t c cat now = (Inl NotFound, db)"
  using select_by_id_empty [of db i]
  by (simp add: update_note_def queryOne_def)

lemma delete_note_absent:
  "i \<notin> ids db \<Longrightarrow> delete_note db i = (Inl NotFound, db)"
  using select_by_id_empty [of db i]
  by (simp add: delete_note_def queryOne_def)

lemma delete_note_present:
  "i \<in> ids db \<Longrightarrow> delete_note db i = (Inr (), sql_delete db i)"
  using select_by_id_empty [of db i]
  by (simp add: delete_note_def queryOne_def split: list.splits)

lemma ids_sql_delete: "ids (sql_delete db i) = ids db - {i}"
  by (auto simp: sql_delete_def ids_def)

lemma map_note_id_sql_update:
  "map note_id (sql_update db t c cat now i) = map note_id db"
  by (induction db) (simp_all add: sql_update_def)

lemma map_createdAt_sql_update:
  "map createdAt (sql_update db t c cat now i) = map createdAt db"
  by (induction db) (simp_all add: sql_update_def)

lemma ids_sql_update: "ids (sql_update db t c cat now i) = ids db"
proof -
  have "set (map note_id (sql_update db t c cat now i)) = set (map note_id db)"
    by (simp only: map_note_id_sql_update)
  then show ?thesis by (simp add: ids_def)
qed

lemma set_order_by: "set (order_by_createdAt_desc rows) = set rows"
  by (simp add: order_by_createdAt_desc_def)

lemma ids_listAll: "ids (listAll db) = ids db"
  by (simp add: listAll_def ids_def set_order_by)

lemma ids_search: "ids (search db q) \<subseteq> ids db"
  by (auto simp: search_def ids_def set_order_by Let_def)

lemma ids_create_note: "ids (snd (create_note db t c cat uuid now)) \<subseteq> insert uuid (ids db)"
  by (auto simp: create_note_def sql_insert_def ids_def Let_def split: option.splits if_splits)

lemma ids_update_note: "ids (snd (update_note db i t c cat now)) = ids db"
  by (auto simp: update_note_def ids_sql_update Let_def split: option.splits if_splits)

lemma ids_delete_note: "ids (snd (delete_note db i)) \<subseteq> ids db"
  by (auto simp: delete_note_def ids_sql_delete split: option.splits)

lemma handle_keeps_absent:
  "i \<notin> ids db \<Longrightarrow> \<not> creates i r \<Longrightarrow> i \<notin> ids (handle db r)"
proof (cases r)
  case (Create t c cat uuid now)
  assume "i \<notin> ids db" "\<not> creates i r"
  with Create ids_create_note [of db t c cat uuid now] show ?thesis by auto
next
  case (Update j t c cat now)
  assume "i \<notin> ids db"
  with Update show ?thesis by (simp add: ids_update_note)
next
  case (Delete j)
  assume "i \<notin> ids db"
  with Delete ids_delete_note [of db j] show ?thesis by auto
qed

lemma handle_all_keeps_absent:
  "i \<notin> ids db \<Longrightarrow> \<forall>r \<in> set rs. \<not> creates i r \<Longrightarrow> i \<notin> ids (handle_all db rs)"
proof (induction rs arbitrary: db)
  case Nil
  then show ?case by (simp add: handle_all_def)
next
  case (Cons r rs)
  from Cons.prems have "i \<notin> ids (handle db r)" by (simp add: handle_keeps_absent)
  with Cons.IH [of "handle db r"] Cons.prems(2) show ?case
    by (simp add: handle_all_def)
qed

subsection \<open>Order of the checks of an update\<close>

text \<open>
  Claim C10. On update, the not-found check comes before the validation of the input:
  an update of an id that no note of the store has returns \<open>NotFound\<close> and leaves the
  store as it was, whatever the title and the content are, also when one of them is
  absent or empty after trimming.
\<close>

theorem update_not_found_before_validation:
  "i \<notin> ids db \<Longrightarrow> update_note db i t c cat now = (Inl NotFound, db)"
  by (rule update_note_absent)

theorem update_not_found_before_validation_witness:
  "trim ''  '' = [] \<and>
   update_note [] ''n1'' (Some ''  '') None None 7 = (Inl NotFound, [])"
proof -
  have absent: "''n1'' \<notin> ids []" by (simp add: ids_def)
  have blank: "trim ''  '' = []" by (simp add: trim_def is_space_def)
  from update_not_found_before_validation [OF absent] blank show ?thesis by simp
qed

subsection \<open>Validation\<close>

text \<open>The no-break space is white space for \<open>trim\<close>: a title made of it is blank.\<close>

lemma no_break_space_is_blank:
  "trim [CHR 0xA0, CHR 0x09, CHR 0xA0] = [] \<and>
   trim ([CHR 0xA0] @ ''a b'' @ [CHR 0x0A]) = ''a b'' \<and>
   create_note [] (Some [CHR 0xA0]) (Some ''text'') None ''n1'' 1 =
     (Inl (BadRequest ''Title is required''), [])"
  by code_simp






subsection \<open>Unknown ids and deleted notes\<close>

text \<open>
  Claim C8. An update or a delete of an id that no stored note has is answered
  \<open>NotFound\<close> and leaves the store as it was. A delete of a stored id succeeds, and
  from then on, through any further requests that do not insert a note under that very
  id again, neither \<open>listAll\<close> nor any \<open>search\<close> returns a note with the id, and
  another delete of the id is answered \<open>NotFound\<close>.
\<close>

theorem not_found_and_delete:
  "(i \<notin> ids db \<longrightarrow>
      update_note db i t c cat now = (Inl NotFound, db) \<and>
      delete_note db i = (Inl NotFound, db)) \<and>
   (i \<in> ids db \<longrightarrow>
      fst (delete_note db i) = Inr () \<and>
      (\<forall>rs. (\<forall>r \<in> set rs. \<not> creates i r) \<longrightarrow>
         (let d = handle_all (snd (delete_note db i)) rs
          in i \<notin> ids (listAll d) \<and> (\<forall>q. i \<notin> ids (search d q)) \<and>
             delete_note d i = (Inl NotFound, d))))"
proof (intro conjI impI allI)
  assume "i \<notin> ids db"
  then show "update_note db i t c cat now = (Inl NotFound, db)"
    by (rule update_note_absent)
next
  assume "i \<notin> ids db"
  then show "delete_note db i = (Inl NotFound, db)"
    by (rule delete_note_absent)
next
  assume "i \<in> ids db"
  then show "fst (delete_note db i) = Inr ()"
    by (simp add: delete_note_present)
next
  fix rs
  assume present: "i \<in> ids db" and rs: "\<forall>r \<in> set rs. \<not> creates i r"
  have "i \<notin> ids (snd (delete_note db i))"
    using present by (simp add: delete_note_present ids_sql_delete)
  then have gone: "i \<notin> ids (handle_all (snd (delete_note db i)) rs)"
    using rs by (rule handle_all_keeps_absent)
  have "\<And>q. i \<notin> ids (search (handle_all (snd (delete_note db i)) rs) q)"
    using gone ids_search by blast
  with gone
  show "let d = handle_all (snd (delete_note db i)) rs
        in i \<notin> ids (listAll d) \<and> (\<forall>q. i \<notin> ids (search d q)) \<and>
           delete_note d i = (Inl NotFound, d)"
    by (simp add: Let_def ids_listAll delete_note_absent)
qed

theorem not_found_and_delete_witness:
  "update_note [n0] ''n2'' (Some ''t'') (Some ''c'') None 9 = (Inl NotFound, [n0]) \<and>
   delete_note [n0] ''n2'' = (Inl NotFound, [n0]) \<and>
   fst (delete_note [n0, n2] ''n1'') = Inr () \<and>
   handle_all (snd (delete_note [n0, n2] ''n1''))
     [Update ''n2'' (Some ''Plan B'') (Some ''stay'') (Some ''Travel'') 20] = [n2'] \<and>
   ''n1'' \<notin> ids (listAll [n2']) \<and>
   ''n1'' \<notin> ids (search [n2'] (Some ''abc'')) \<and>
   delete_note [n2'] ''n1'' = (Inl NotFound, [n2'])"
proof -
  have absent: "''n2'' \<notin> ids [n0]" by (simp add: ids_def n0_def)
  have present: "''n1'' \<in> ids [n0, n2]" by (simp add: ids_def n0_def)
  have later: "\<forall>r \<in> set [Update ''n2'' (Some ''Plan B'') (Some ''stay'') (Some ''Travel'') 20].
                 \<not> creates ''n1'' r"
    by simp
  have after: "handle_all (snd (delete_note [n0, n2] ''n1''))
     [Update ''n2'' (Some ''Plan B'') (Some ''stay'') (Some ''Travel'') 20] = [n2']"
    by code_simp
  from not_found_and_delete [of "''n2''" "[n0]" "Some ''t''" "Some ''c''" None 9] absent
  have a: "update_note [n0] ''n2'' (Some ''t'') (Some ''c'') None 9 = (Inl NotFound, [n0]) \<and>
           delete_note [n0] ''n2'' = (Inl NotFound, [n0])"
    by blast
  from not_found_and_delete [of "''n1''" "[n0, n2]"] present
  have b: "fst (delete_note [n0, n2] ''n1'') = Inr () \<and>
      (\<forall>rs. (\<forall>r \<in> set rs. \<not> creates ''n1'' r) \<longrightarrow>
         (let d = handle_all (snd (delete_note [n0, n2] ''n1'')) rs
          in ''n1'' \<notin> ids (listAll d) \<and> (\<forall>q. ''n1'' \<notin> ids (search d q)) \<and>
             delete_note d ''n1'' = (Inl NotFound, d)))"
    by blast
  then have "let d = handle_all (snd (delete_note [n0, n2] ''n1''))
                 [Update ''n2'' (Some ''Plan B'') (Some ''stay'') (Some ''Travel'') 20]
          in ''n1'' \<notin> ids (listAll d) \<and> (\<forall>q. ''n1'' \<notin> ids (search d q)) \<and>
             delete_note d ''n1'' = (Inl NotFound, d)"
    using later by blast
  then have c: "''n1'' \<notin> ids (listAll [n2']) \<and>
     ''n1'' \<notin> ids (search [n2'] (Some ''abc'')) \<and>
     delete_note [n2'] ''n1'' = (Inl NotFound, [n2'])"
    unfolding after by (simp add: Let_def)
  from a b c after show ?thesis by blast
qed

subsection \<open>Time stamps\<close>

lemma create_note_Inr:
  "create_note db t c cat uuid now = (Inr n, db1) \<Longrightarrow>
   note_id n = uuid \<and> createdAt n = now \<and> updatedAt n = now \<and> db1 = db @ [n] \<and> uuid \<notin> ids db"
  by (auto simp: create_note_def sql_insert_def Let_def select_by_id_empty
           split: option.splits if_splits)

lemma update_note_Inr:
  assumes "update_note db i t c cat now = (Inr n', db2)"
  shows "\<exists>e t' c' cat'. queryOne (select_by_id db i) = Some e \<and>
           n' = e\<lparr>title := t', content := c', category := cat', updatedAt := now\<rparr> \<and>
           db2 = sql_update db t' c' cat' now i"
  using assms
  by (auto simp: update_note_def Let_def split: option.splits if_splits)

lemma select_sql_update:
  "select_by_id (sql_update db t c cat now i) i =
   map (\<lambda>n. n\<lparr>title := t, content := c, category := cat, updatedAt := now\<rparr>)
       (select_by_id db i)"
  by (induction db) (simp_all add: select_by_id_def sql_update_def)

lemma queryOne_map: "queryOne (map f rows) = map_option f (queryOne rows)"
  by (cases rows) (simp_all add: queryOne_def)

lemma stamped_sql_update: "stamped u ts db \<Longrightarrow> stamped u ts (sql_update db t c cat now i)"
  by (induction db) (simp_all add: stamped_def sql_update_def)

lemma stamped_sql_delete: "stamped u ts db \<Longrightarrow> stamped u ts (sql_delete db i)"
  by (induction db) (simp_all add: stamped_def sql_delete_def)

lemma stamped_handle:
  assumes "stamped u ts db" and "\<not> creates u r"
  shows "stamped u ts (handle db r)"
proof (cases r)
  case (Create t c cat uuid now)
  with assms show ?thesis
    by (auto simp: create_note_def sql_insert_def Let_def stamped_def
             split: option.splits if_splits)
next
  case (Update j t c cat now)
  with assms(1) show ?thesis
    by (auto simp: update_note_def Let_def stamped_sql_update split: option.splits if_splits)
next
  case (Delete j)
  with assms(1) show ?thesis
    by (auto simp: delete_note_def stamped_sql_delete split: option.splits)
qed

lemma stamped_handle_all:
  "stamped u ts db \<Longrightarrow> \<forall>r \<in> set rs. \<not> creates u r \<Longrightarrow> stamped u ts (handle_all db rs)"
proof (induction rs arbitrary: db)
  case Nil
  then show ?case by (simp add: handle_all_def)
next
  case (Cons r rs)
  from Cons.prems have "stamped u ts (handle db r)" by (simp add: stamped_handle)
  with Cons.IH [of "handle db r"] Cons.prems(2) show ?case
    by (simp add: handle_all_def)
qed

text \<open>
  Claim C7. The note a create returns has \<open>createdAt = updatedAt\<close> (the time of the
  create). When that note is updated later, after any requests that do not insert under
  its id again, the update returns and stores a note with the same id and the same
  \<open>createdAt\<close>, and with \<open>updatedAt\<close> set to the time of the update; an update changes
  the id and the \<open>createdAt\<close> of no row.
\<close>

theorem create_then_update_stamps:
  assumes created: "create_note db t c cat uuid now = (Inr n, db1)"
      and between: "\<forall>r \<in> set rs. \<not> creates uuid r"
      and updated: "update_note (handle_all db1 rs) uuid t' c' cat' now' = (Inr n', db2)"
  shows "note_id n = uuid \<and> createdAt n = now \<and> updatedAt n = createdAt n \<and>
         note_id n' = note_id n \<and> createdAt n' = createdAt n \<and> updatedAt n' = now' \<and>
         queryOne (select_by_id db2 uuid) = Some n' \<and>
         map note_id db2 = map note_id (handle_all db1 rs) \<and>
         map createdAt db2 = map createdAt (handle_all db1 rs)"
proof -
  let ?d = "handle_all db1 rs"
  from create_note_Inr [OF created]
  have n: "note_id n = uuid" "createdAt n = now" "updatedAt n = now" "db1 = db @ [n]"
    and fresh: "uuid \<notin> ids db"
    by simp_all
  from fresh have "stamped uuid now db"
    by (auto simp: stamped_def ids_def list_all_iff)
  with n have "stamped uuid now db1" by (simp add: stamped_def)
  then have inv: "stamped uuid now ?d" using between by (rule stamped_handle_all)
  from update_note_Inr [OF updated] obtain e tt cc kk where
    e: "queryOne (select_by_id ?d uuid) = Some e" and
    n': "n' = e\<lparr>title := tt, content := cc, category := kk, updatedAt := now'\<rparr>" and
    db2: "db2 = sql_update ?d tt cc kk now' uuid"
    by blast
  from queryOne_select_Some [OF e] have ee: "note_id e = uuid" "e \<in> set ?d" by simp_all
  with inv have "createdAt e = now" by (auto simp: stamped_def list_all_iff)
  with n n' ee have fields: "note_id n' = note_id n" "createdAt n' = createdAt n" "updatedAt n' = now'"
    by simp_all
  from e have stored: "queryOne (select_by_id db2 uuid) = Some n'"
    by (simp add: db2 select_sql_update queryOne_map n')
  from n fields stored show ?thesis
    by (simp add: db2 map_note_id_sql_update map_createdAt_sql_update)
qed

theorem create_then_update_stamps_witness:
  "create_note [n0] (Some '' Plan '') (Some ''pack bags'') (Some ''Personal'') ''n2'' 10
     = (Inr n2, [n0, n2]) \<and>
   update_note (handle_all [n0, n2] [Delete ''n1'']) ''n2'' (Some ''Plan B'') (Some ''stay'')
     (Some ''Travel'') 20 = (Inr n2', [n2']) \<and>
   createdAt n2 = updatedAt n2 \<and> note_id n2' = note_id n2 \<and> createdAt n2' = createdAt n2 \<and>
   updatedAt n2' = 20 \<and> queryOne (select_by_id [n2'] ''n2'') = Some n2'"
proof -
  have created: "create_note [n0] (Some '' Plan '') (Some ''pack bags'') (Some ''Personal'') ''n2'' 10
     = (Inr n2, [n0, n2])"
    by code_simp
  have between: "\<forall>r \<in> set [Delete ''n1'']. \<not> creates ''n2'' r"
    by simp
  have updated: "update_note (handle_all [n0, n2] [Delete ''n1'']) ''n2'' (Some ''Plan B'')
     (Some ''stay'') (Some ''Travel'') 20 = (Inr n2', [n2'])"
    by code_simp
  from create_then_update_stamps [OF created between updated] created updated
  show ?thesis by simp
qed

section \<open>Categories of the stored notes\<close>

lemma resolve_category_known:
  "choice_allowed cat \<Longrightarrow> resolve_category cat t c \<in> set known_categories"
  using categorize_known [of t c]
  by (auto simp: choice_allowed_def resolve_category_def split: option.splits)

lemma all_known_create:
  assumes "all_known db" and "choice_allowed cat"
  shows "all_known (snd (create_note db t c cat uuid now))"
  using assms resolve_category_known [OF assms(2)]
  by (auto simp: create_note_def sql_insert_def all_known_def Let_def
           split: option.splits if_splits)

lemma all_known_sql_update:
  "all_known db \<Longrightarrow> cat \<in> set known_categories \<Longrightarrow> all_known (sql_update db t c cat now i)"
  by (induction db) (simp_all add: all_known_def sql_update_def)

lemma all_known_update:
  assumes "all_known db" and "choice_allowed cat"
  shows "all_known (snd (update_note db i t c cat now))"
  using assms resolve_category_known [OF assms(2)]
  by (auto simp: update_note_def Let_def all_known_sql_update split: option.splits if_splits)

lemma all_known_delete: "all_known db \<Longrightarrow> all_known (snd (delete_note db i))"
  by (auto simp: delete_note_def sql_delete_def all_known_def list_all_iff split: option.splits)

lemma all_known_handle:
  "all_known db \<Longrightarrow> well_chosen r \<Longrightarrow> all_known (handle db r)"
  by (cases r) (simp_all add: all_known_create all_known_update all_known_delete)

lemma all_known_handle_all:
  "all_known db \<Longrightarrow> \<forall>r \<in> set rs. well_chosen r \<Longrightarrow> all_known (handle_all db rs)"
proof (induction rs arbitrary: db)
  case Nil
  then show ?case by (simp add: handle_all_def)
next
  case (Cons r rs)
  from Cons.prems have "all_known (handle db r)" by (simp add: all_known_handle)
  with Cons.IH [of "handle db r"] Cons.prems(2) show ?case
    by (simp add: handle_all_def)
qed

text \<open>
  Claim C5, as the handlers have it. The category \<open>categorize\<close> returns is one of the
  eight labels. A category given in a request is stored as it is, so the notes of the
  store all have one of the eight labels as long as every create and update gives no
  category, the empty one, \<open>Auto\<close> or one of the eight labels; requests of that kind
  (and every delete) keep it so.
\<close>

theorem known_category_invariant:
  assumes "all_known db" and "\<forall>r \<in> set rs. well_chosen r"
  shows "all_known (handle_all db rs) \<and> categorize t c \<in> set known_categories"
  using assms by (simp add: all_known_handle_all categorize_known)

theorem known_category_invariant_witness:
  "all_known (handle_all [n0]
     [Create (Some '' Plan '') (Some ''pack bags'') (Some ''Personal'') ''n2'' 10,
      Update ''n1'' (Some ''abc'') (Some ''xyz'') (Some ''Auto'') 11,
      Delete ''n2''])"
proof -
  have a: "all_known [n0]"
    by (simp add: all_known_def n0_def known_categories_def)
  have b: "\<forall>r \<in> set [Create (Some '' Plan '') (Some ''pack bags'') (Some ''Personal'') ''n2'' 10,
      Update ''n1'' (Some ''abc'') (Some ''xyz'') (Some ''Auto'') 11,
      Delete ''n2'']. well_chosen r"
    by (simp add: choice_allowed_def known_categories_def)
  from known_category_invariant [OF a b] show ?thesis by simp
qed

text \<open>A create and an update with the category \<open>Misc\<close> each leave a note in the store
  whose category is none of the eight labels.\<close>

theorem unknown_category_counterexample:
  "all_known [n0] \<and>
   \<not> all_known (snd (create_note [n0] (Some ''Plan'') (Some ''pack bags'') (Some ''Misc'') ''n2'' 10)) \<and>
   \<not> all_known (snd (update_note [n0] ''n1'' (Some ''Plan'') (Some ''pack bags'') (Some ''Misc'') 10))"
  by code_simp

section \<open>Search\<close>

lemma starts_with_ci_iff:
  "starts_with_ci k s \<longleftrightarrow> (\<exists>m v. s = m @ v \<and> map ascii_lower_char m = map ascii_lower_char k)"
proof (induction k s rule: starts_with_ci.induct)
  case (1 s)
  show ?case by simp
next
  case (2 k ks)
  show ?case by simp
next
  case (3 k ks c cs)
  show ?case
  proof
    assume "starts_with_ci (k # ks) (c # cs)"
    with 3 obtain m v where "cs = m @ v" "map ascii_lower_char m = map ascii_lower_char ks"
      and "ascii_lower_char k = ascii_lower_char c"
      by auto
    then have "c # cs = (c # m) @ v \<and> map ascii_lower_char (c # m) = map ascii_lower_char (k # ks)"
      by simp
    then show "\<exists>m v. c # cs = m @ v \<and> map ascii_lower_char m = map ascii_lower_char (k # ks)"
      by blast
  next
    assume "\<exists>m v. c # cs = m @ v \<and> map ascii_lower_char m = map ascii_lower_char (k # ks)"
    then obtain m v where mv: "c # cs = m @ v" "map ascii_lower_char m = map ascii_lower_char (k # ks)"
      by blast
    from mv(2) obtain a m' where m: "m = a # m'" by (cases m) auto
    with mv have "a = c" "cs = m' @ v" "ascii_lower_char c = ascii_lower_char k"
      "map ascii_lower_char m' = map ascii_lower_char ks"
      by auto
    with 3 show "starts_with_ci (k # ks) (c # cs)" by auto
  qed
qed

lemma contains_ci_iff:
  "contains_ci k s \<longleftrightarrow> (\<exists>u m v. s = u @ m @ v \<and> map ascii_lower_char m = map ascii_lower_char k)"
proof (induction s)
  case Nil
  show ?case by (auto simp: starts_with_ci_iff)
next
  case (Cons c cs)
  show ?case
  proof
    assume "contains_ci k (c # cs)"
    then consider "starts_with_ci k (c # cs)" | "contains_ci k cs" by auto
    then show "\<exists>u m v. c # cs = u @ m @ v \<and> map ascii_lower_char m = map ascii_lower_char k"
    proof cases
      case 1
      then obtain m v where "c # cs = [] @ m @ v \<and> map ascii_lower_char m = map ascii_lower_char k"
        by (auto simp: starts_with_ci_iff)
      then show ?thesis by blast
    next
      case 2
      with Cons obtain u m v where "cs = u @ m @ v" "map ascii_lower_char m = map ascii_lower_char k"
        by blast
      then have "c # cs = (c # u) @ m @ v \<and> map ascii_lower_char m = map ascii_lower_char k" by simp
      then show ?thesis by blast
    qed
  next
    assume "\<exists>u m v. c # cs = u @ m @ v \<and> map ascii_lower_char m = map ascii_lower_char k"
    then obtain u m v where umv: "c # cs = u @ m @ v" "map ascii_lower_char m = map ascii_lower_char k"
      by blast
    show "contains_ci k (c # cs)"
    proof (cases u)
      case Nil
      with umv have "starts_with_ci k (c # cs)"
        unfolding starts_with_ci_iff by auto
      then show ?thesis by simp
    next
      case (Cons a u')
      with umv have "cs = u' @ m @ v" by simp
      with umv(2) Cons.IH have "contains_ci k cs" by blast
      then show ?thesis by simp
    qed
  qed
qed

lemma like_percent: "like_match ''%'' s"
  by (induction s) simp_all

lemma like_prefix:
  "\<forall>c \<in> set k. \<not> is_wildcard c \<Longrightarrow> like_match (k @ ''%'') s = starts_with_ci k s"
proof (induction k s rule: starts_with_ci.induct)
  case (1 s)
  show ?case by (simp add: like_percent)
next
  case (2 k ks)
  then show ?case by (simp add: is_wildcard_def)
next
  case (3 k ks c cs)
  then show ?case by (simp add: is_wildcard_def)
qed

lemma like_contains:
  assumes "\<forall>c \<in> set k. \<not> is_wildcard c"
  shows "like_match (''%'' @ k @ ''%'') s = contains_ci k s"
proof (induction s)
  case Nil
  have "like_match (CHR ''%'' # k @ ''%'') [] = like_match (k @ ''%'') []" by simp
  with like_prefix [OF assms, of "[]"] show ?case by simp
next
  case (Cons c cs)
  have "like_match (CHR ''%'' # k @ ''%'') (c # cs) =
          (like_match (k @ ''%'') (c # cs) \<or> like_match (CHR ''%'' # k @ ''%'') cs)"
    by simp
  with like_prefix [OF assms, of "c # cs"] Cons show ?case by simp
qed

lemma search_plain_keyword:
  assumes "\<forall>c \<in> set keyword. \<not> is_wildcard c"
  shows "search db (Some keyword) = search_spec db keyword"
  using like_contains [OF assms] by (simp add: search_def search_spec_def Let_def)

lemma like_percent_percent: "like_match ''%%'' s"
  by (induction s) (simp_all add: like_percent)

lemma search_empty_keyword:
  "search db None = listAll db \<and> search db (Some []) = listAll db"
  by (simp add: search_def listAll_def Let_def like_percent_percent)

lemma search_descending:
  "sorted (map (\<lambda>n. - createdAt n) (search db q)) \<and>
   sorted (map (\<lambda>n. - createdAt n) (listAll db))"
  by (simp add: search_def listAll_def order_by_createdAt_desc_def Let_def)

text \<open>
  Claim C6. The handler puts the keyword into the \<open>LIKE\<close> pattern as it is. For a
  keyword without \<open>%\<close> and \<open>_\<close> the result is the one specified (lemma
  \<open>search_plain_keyword\<close>), the empty keyword gives \<open>listAll\<close>, and the result is
  ordered by decreasing \<open>createdAt\<close>. A keyword with a wild card is not searched
  for as plain text: with the notes \<open>n0\<close> (title \<open>abc\<close>, content \<open>xyz\<close>) and \<open>n3\<close>
  (title \<open>a_c\<close>, content \<open>50%\<close>) stored, the searches for \<open>a_c\<close> and for \<open>%\<close>
  return both notes, where only \<open>n3\<close> contains either keyword.
\<close>

theorem search_wildcard_keyword:
  "search [n0, n3] (Some ''a_c'') = [n3, n0] \<and>
   search_spec [n0, n3] ''a_c'' = [n3] \<and>
   search [n0, n3] (Some ''%'') = [n3, n0] \<and>
   search_spec [n0, n3] ''%'' = [n3]"
  by code_simp

end
